theory Spec2Isabelle
  imports Main
begin

section \<open>The calendar object model used by \<open>iCalDiff\<close>\<close>

text \<open>
  \<open>twistedcaldav/scheduling/icaldiff.py\<close> works on \<open>Component\<close> and \<open>Property\<close> objects
  of \<open>twistedcaldav.ical\<close>. A property has a name, a value and parameters, and is compared
  by content. A component has a type name, a list of properties and a list of nested
  components; a calendar document is the component named \<open>VCALENDAR\<close>.
\<close>

record property =
  pname :: string
  pvalue :: string
  pparams :: "(string \<times> string) list"

datatype component =
  Component (cname: string) (cprops: "property list") (csubs: "component list")

datatype error = KeyError

text \<open>
  Modelled from the spec: \<open>Component.__eq__\<close> (the \<open>==\<close> of \<open>organizerDiff\<close> and
  \<open>attendeeMerge\<close>, and the membership test of \<open>set(comp.subcomponents())\<close>), which is not
  in the source file. Two components are equal iff they have the same type name, the same
  set of properties and, recursively, structurally equal sets of nested components,
  whatever the order.
\<close>

fun comp_eq :: "component \<Rightarrow> component \<Rightarrow> bool" where
  "comp_eq (Component n1 ps1 ss1) (Component n2 ps2 ss2) =
     (n1 = n2 \<and> set ps1 = set ps2 \<and>
      (\<forall>s \<in> set ss1. \<exists>t \<in> set ss2. comp_eq s t) \<and>
      (\<forall>t \<in> set ss2. \<exists>s \<in> set ss1. comp_eq s t))"

text \<open>
  Python's \<open>set(xs) ^ set(ys)\<close> as a duplicate-free list: the elements of one side that
  have no equal element on the other side. \<open>symdiff\<close> is for elements compared by content
  (properties, keys); \<open>symdiff_by\<close> takes the equality of the elements (components).
\<close>

definition symdiff :: "'a list \<Rightarrow> 'a list \<Rightarrow> 'a list" where
  "symdiff xs ys =
     remdups ([x \<leftarrow> xs. x \<notin> set ys] @ [y \<leftarrow> ys. y \<notin> set xs])"

definition symdiff_by :: "('a \<Rightarrow> 'a \<Rightarrow> bool) \<Rightarrow> 'a list \<Rightarrow> 'a list \<Rightarrow> 'a list" where
  "symdiff_by eq xs ys =
     [x \<leftarrow> xs. \<not> (\<exists>y \<in> set ys. eq x y)] @ [y \<leftarrow> ys. \<not> (\<exists>x \<in> set xs. eq x y)]"

section \<open>\<open>_testComponents\<close>\<close>

definition volatile :: "string list" where
  "volatile = [''TRANSP'', ''DTSTAMP'', ''CREATED'', ''LAST-MODIFIED'', ''SEQUENCE'']"

text \<open>
  The loop \<open>for prop in tuple(propdiff)\<close>: the first argument is what is left of the
  tuple, the second the set \<open>propdiff\<close> that the loop shrinks. \<open>None\<close> is the early
  \<open>return False, False\<close>; \<open>Some\<close> carries \<open>propdiff\<close> as the loop leaves it.
\<close>

fun testProps :: "string \<Rightarrow> property list \<Rightarrow> property list \<Rightarrow> property list option" where
  "testProps att [] propdiff = Some propdiff"
| "testProps att (prop # rest) propdiff =
     (if pname prop \<in> set volatile then testProps att rest (removeAll prop propdiff)
      else if pname prop \<noteq> ''ATTENDEE'' \<or> pvalue prop \<noteq> att then None
      else testProps att rest propdiff)"

definition testComponents :: "string \<Rightarrow> component \<Rightarrow> component \<Rightarrow> bool \<times> bool" where
  "testComponents att comp1 comp2 =
     (if cname comp1 \<noteq> cname comp2 then (False, False)
      else
        let propdiff = symdiff (cprops comp1) (cprops comp2) in
        case testProps att propdiff propdiff of
          None \<Rightarrow> (False, False)
        | Some propdiff' \<Rightarrow>
            let result = symdiff_by comp_eq (csubs comp1) (csubs comp2) in
            if result \<noteq> [] then (False, False)
            else (True, length propdiff' = 0))"

section \<open>Collaborators of the diff engine\<close>

text \<open>
  The operations of \<open>twistedcaldav.ical.Component\<close> and of \<open>iTipGenerator\<close> that the
  source calls but does not define are parameters of the model. The in-place ones
  (\<open>removeXProperties\<close>, \<open>attendeesView\<close>, \<open>prepareSchedulingMessage\<close>) are given by the
  new content of the object they are called on. \<open>propertyValue\<close> and
  \<open>getRecurrenceIDUTC\<close> return \<open>None\<close> where Python returns \<open>None\<close>; a recurrence
  identifier is a UTC instant, written as an iCalendar date-time. \<open>deriveInstance\<close>
  returns \<open>None\<close> when no instance can be derived.
\<close>

type_synonym utc = string

record collaborators =
  removeXProperties :: "component \<Rightarrow> component"
  attendeesView :: "string list \<Rightarrow> component \<Rightarrow> component"
  prepareSchedulingMessage :: "component \<Rightarrow> component"
  propertyValue :: "component \<Rightarrow> string \<Rightarrow> string option"
  getRecurrenceIDUTC :: "component \<Rightarrow> utc option"
  deriveInstance :: "component \<Rightarrow> utc option \<Rightarrow> component option"

text \<open>
  Modelled from the spec: \<open>Component.removeAlarms\<close>, which is not in the source file:
  it removes all alarm subcomponents, at every nesting level.
\<close>

fun removeAlarms :: "component \<Rightarrow> component" where
  "removeAlarms (Component n ps ss) =
     Component n ps (map removeAlarms [s \<leftarrow> ss. cname s \<noteq> ''VALARM''])"

section \<open>\<open>_checkVCALENDARProperties\<close> and \<open>_compareVTIMEZONEs\<close>\<close>

definition checkVCALENDARProperties :: "component \<Rightarrow> component \<Rightarrow> bool" where
  "checkVCALENDARProperties calendar1 calendar2 =
     (let propdiff = symdiff (cprops calendar1) (cprops calendar2);
          ignored = [''PRODID'', ''CALSCALE''];
          propdiff = [prop \<leftarrow> propdiff. pname prop \<notin> set ignored];
          result = (length propdiff = 0)
      in result)"

fun extractTZIDs_loop ::
  "collaborators \<Rightarrow> component list \<Rightarrow> string option set \<Rightarrow> string option set" where
  "extractTZIDs_loop env [] tzids = tzids"
| "extractTZIDs_loop env (component # rest) tzids =
     (if cname component = ''VTIMEZONE''
      then extractTZIDs_loop env rest (insert (propertyValue env component ''TZID'') tzids)
      else extractTZIDs_loop env rest tzids)"

definition extractTZIDs :: "collaborators \<Rightarrow> component \<Rightarrow> string option set" where
  "extractTZIDs env calendar = extractTZIDs_loop env (csubs calendar) {}"

definition compareVTIMEZONEs :: "collaborators \<Rightarrow> component \<Rightarrow> component \<Rightarrow> bool" where
  "compareVTIMEZONEs env calendar1 calendar2 =
     (let tzids1 = extractTZIDs env calendar1;
          tzids2 = extractTZIDs env calendar2;
          result = (tzids1 = tzids2)
      in result)"

section \<open>\<open>_compareComponents\<close>\<close>

text \<open>
  The key of a component is (name, UID, recurrence identifier). A dictionary is an
  association list with one entry per key; \<open>dict_set\<close> is \<open>map[key] = value\<close> and
  \<open>map_of\<close> the lookup, which raises \<open>KeyError\<close> on a missing key.
\<close>

type_synonym key = "string \<times> string option \<times> utc option"

fun dict_set :: "'k \<Rightarrow> 'v \<Rightarrow> ('k \<times> 'v) list \<Rightarrow> ('k \<times> 'v) list" where
  "dict_set k v [] = [(k, v)]"
| "dict_set k v ((k', v') # m) =
     (if k' = k then (k, v) # m else (k', v') # dict_set k v m)"

fun mapComponents_loop ::
  "collaborators \<Rightarrow> component list \<Rightarrow> (key \<times> component) list \<Rightarrow> (key \<times> component) list" where
  "mapComponents_loop env [] m = m"
| "mapComponents_loop env (component # rest) m =
     (if cname component = ''VTIMEZONE'' then mapComponents_loop env rest m
      else
        let name = cname component;
            uid = propertyValue env component ''UID'';
            rid = getRecurrenceIDUTC env component
        in mapComponents_loop env rest (dict_set (name, uid, rid) component m))"

definition mapComponents :: "collaborators \<Rightarrow> component \<Rightarrow> (key \<times> component) list" where
  "mapComponents env calendar = mapComponents_loop env (csubs calendar) []"

text \<open>
  What a loop body can do: raise, return from the method, or go on to the next
  iteration with the current value of \<open>attendee_unchanged\<close>.
\<close>

datatype outcome = Raise error | Return "bool \<times> bool" | Next bool

text \<open>The loop \<open>for key, value in map1.iteritems()\<close> (\<open>map_1\<close>, \<open>map_2\<close> are the source's \<open>map1\<close>, \<open>map2\<close>).\<close>

fun matched_loop ::
  "string \<Rightarrow> (key \<times> component) list \<Rightarrow> (key \<times> component) list \<Rightarrow> bool \<Rightarrow> outcome" where
  "matched_loop att [] map_2 attendee_unchanged = Next attendee_unchanged"
| "matched_loop att ((key, component1) # items) map_2 attendee_unchanged =
     (case map_of map_2 key of
        None \<Rightarrow> Raise KeyError
      | Some component2 \<Rightarrow>
          (case testComponents att component1 component2 of
             (nomismatch, no_attendee_change) \<Rightarrow>
               if \<not> nomismatch then Return (False, False)
               else matched_loop att items map_2 (attendee_unchanged \<and> no_attendee_change)))"

text \<open>The loop \<open>for key in set2 - set1\<close>; \<open>key[2]\<close> is the recurrence identifier.\<close>

fun derived_loop ::
  "collaborators \<Rightarrow> string \<Rightarrow> component \<Rightarrow> key list \<Rightarrow> (key \<times> component) list \<Rightarrow> bool
     \<Rightarrow> outcome" where
  "derived_loop env att calendar1 [] map_2 attendee_unchanged = Next attendee_unchanged"
| "derived_loop env att calendar1 (key # keys) map_2 attendee_unchanged =
     (case deriveInstance env calendar1 (snd (snd key)) of
        None \<Rightarrow> Return (False, False)
      | Some component1 \<Rightarrow>
          (case map_of map_2 key of
             None \<Rightarrow> Raise KeyError
           | Some component2 \<Rightarrow>
               (case testComponents att component1 component2 of
                  (nomismatch, no_attendee_change) \<Rightarrow>
                    if \<not> nomismatch then Return (False, False)
                    else derived_loop env att calendar1 keys map_2
                           (attendee_unchanged \<and> no_attendee_change))))"

definition compareComponents ::
  "collaborators \<Rightarrow> string \<Rightarrow> component \<Rightarrow> component \<Rightarrow> error + bool \<times> bool" where
  "compareComponents env att calendar1 calendar2 =
     (let map_1 = mapComponents env calendar1;
          set1 = map fst map_1;
          map_2 = mapComponents env calendar2;
          set2 = map fst map_2;
          result = [k \<leftarrow> set1. k \<notin> set set2]
      in if result \<noteq> [] then Inr (False, False)
         else
           case matched_loop att map_1 map_2 True of
             Raise e \<Rightarrow> Inl e
           | Return r \<Rightarrow> Inr r
           | Next attendee_unchanged \<Rightarrow>
               (case derived_loop env att calendar1 [k \<leftarrow> set2. k \<notin> set set1] map_2
                       attendee_unchanged of
                  Raise e \<Rightarrow> Inl e
                | Return r \<Rightarrow> Inr r
                | Next attendee_unchanged' \<Rightarrow> Inr (True, attendee_unchanged')))"

section \<open>The \<open>iCalDiff\<close> object, \<open>organizerDiff\<close> and \<open>attendeeMerge\<close>\<close>

text \<open>
  Calendar objects live in a store and are named by their address; the fields of an
  \<open>iCalDiff\<close> object hold addresses. An in-place operation replaces the content of
  the object it is called on.
\<close>

type_synonym addr = nat
type_synonym store = "component list"

record iCalDiff =
  calendar1 :: addr
  calendar2 :: addr
  attendee :: "string option"

text \<open>
  Modelled from the spec: \<open>Component.duplicate\<close>, which is not in the source file:
  it creates an independent deep copy, that is a new object with the same content.
\<close>

definition duplicate :: "addr \<Rightarrow> store \<Rightarrow> addr \<times> store" where
  "duplicate a h = (length h, h @ [h ! a])"

definition in_place :: "(component \<Rightarrow> component) \<Rightarrow> addr \<Rightarrow> store \<Rightarrow> store" where
  "in_place f a h = h[a := f (h ! a)]"

definition organizerDiff :: "iCalDiff \<times> store \<Rightarrow> bool \<times> iCalDiff \<times> store" where
  "organizerDiff = (\<lambda>(self, h).
     case duplicate (calendar1 self) h of (a1, h1) \<Rightarrow>
     let self1 = self\<lparr>calendar1 := a1\<rparr>;
         h2 = in_place removeAlarms (calendar1 self1) h1 in
     case duplicate (calendar2 self1) h2 of (a2, h3) \<Rightarrow>
     let self2 = self1\<lparr>calendar2 := a2\<rparr>;
         h4 = in_place removeAlarms (calendar2 self2) h3
     in (comp_eq (h4 ! calendar1 self2) (h4 ! calendar2 self2), self2, h4))"

definition attendeeMerge ::
  "collaborators \<Rightarrow> string \<Rightarrow> iCalDiff \<times> store
     \<Rightarrow> (error + bool \<times> bool) \<times> iCalDiff \<times> store" where
  "attendeeMerge env att = (\<lambda>(self, h).
     let self0 = self\<lparr>attendee := Some att\<rparr> in
     case duplicate (calendar1 self0) h of (a1, h1) \<Rightarrow>
     let self1 = self0\<lparr>calendar1 := a1\<rparr>;
         h2 = in_place (removeXProperties env) (calendar1 self1) h1;
         h3 = in_place (attendeesView env [att]) (calendar1 self1) h2;
         h4 = in_place (prepareSchedulingMessage env) (calendar1 self1) h3 in
     case duplicate (calendar2 self1) h4 of (a2, h5) \<Rightarrow>
     let self2 = self1\<lparr>calendar2 := a2\<rparr>;
         h6 = in_place (removeXProperties env) (calendar2 self2) h5;
         h7 = in_place (prepareSchedulingMessage env) (calendar2 self2) h6;
         c1 = h7 ! calendar1 self2;
         c2 = h7 ! calendar2 self2
     in (if comp_eq c1 c2 then Inr (True, True)
         else if \<not> checkVCALENDARProperties c1 c2 then Inr (False, False)
         else if \<not> compareVTIMEZONEs env c1 c2 then Inr (False, False)
         else compareComponents env (the (attendee self2)) c1 c2,
         self2, h7))"

section \<open>Notions used to state the properties\<close>

text \<open>
  The property differences of two components that are left once the volatile names are
  discarded, and what the comparator permits among them.
\<close>

definition nonvolatile_diff :: "component \<Rightarrow> component \<Rightarrow> property list" where
  "nonvolatile_diff comp1 comp2 =
     [p \<leftarrow> symdiff (cprops comp1) (cprops comp2). pname p \<notin> set volatile]"

definition own_attendee :: "string \<Rightarrow> property \<Rightarrow> bool" where
  "own_attendee att p \<longleftrightarrow> pname p = ''ATTENDEE'' \<and> pvalue p = att"

definition same_subcomponents :: "component \<Rightarrow> component \<Rightarrow> bool" where
  "same_subcomponents comp1 comp2 \<longleftrightarrow> symdiff_by comp_eq (csubs comp1) (csubs comp2) = []"

text \<open>
  What the matcher needs from a key that only the second document has: the first
  document derives an instance at the key's recurrence identifier, and the comparator
  accepts the derived instance against the second document's component
  (\<open>derived_ok\<close>); \<open>derived_flag\<close> is the second boolean of that comparison.
\<close>

definition derived_ok ::
  "collaborators \<Rightarrow> string \<Rightarrow> component \<Rightarrow> (key \<times> component) list \<Rightarrow> key \<Rightarrow> bool" where
  "derived_ok env att cal1 map_2 k =
     (case deriveInstance env cal1 (snd (snd k)) of
        None \<Rightarrow> False
      | Some d \<Rightarrow> (case map_of map_2 k of
                    None \<Rightarrow> False
                  | Some c2 \<Rightarrow> fst (testComponents att d c2)))"

definition derived_flag ::
  "collaborators \<Rightarrow> string \<Rightarrow> component \<Rightarrow> (key \<times> component) list \<Rightarrow> key \<Rightarrow> bool" where
  "derived_flag env att cal1 map_2 k =
     (case deriveInstance env cal1 (snd (snd k)) of
        None \<Rightarrow> False
      | Some d \<Rightarrow> (case map_of map_2 k of
                    None \<Rightarrow> False
                  | Some c2 \<Rightarrow> snd (testComponents att d c2)))"

definition matched_ok :: "string \<Rightarrow> (key \<times> component) list \<Rightarrow> key \<times> component \<Rightarrow> bool" where
  "matched_ok att map_2 kv =
     (case map_of map_2 (fst kv) of
        None \<Rightarrow> False
      | Some c2 \<Rightarrow> fst (testComponents att (snd kv) c2))"

definition matched_flag :: "string \<Rightarrow> (key \<times> component) list \<Rightarrow> key \<times> component \<Rightarrow> bool" where
  "matched_flag att map_2 kv =
     (case map_of map_2 (fst kv) of
        None \<Rightarrow> False
      | Some c2 \<Rightarrow> snd (testComponents att (snd kv) c2))"

definition keys_of :: "collaborators \<Rightarrow> component \<Rightarrow> key list" where
  "keys_of env cal = map fst (mapComponents env cal)"

definition only_in_second :: "collaborators \<Rightarrow> component \<Rightarrow> component \<Rightarrow> key list" where
  "only_in_second env cal1 cal2 =
     [k \<leftarrow> keys_of env cal2. k \<notin> set (keys_of env cal1)]"

text \<open>The two working copies that \<open>attendeeMerge\<close> compares.\<close>

definition organizer_copy :: "collaborators \<Rightarrow> string \<Rightarrow> component \<Rightarrow> component" where
  "organizer_copy env att doc =
     prepareSchedulingMessage env (attendeesView env [att] (removeXProperties env doc))"

definition attendee_copy :: "collaborators \<Rightarrow> component \<Rightarrow> component" where
  "attendee_copy env doc = prepareSchedulingMessage env (removeXProperties env doc)"

text \<open>
  Two components differ in volatile properties at most: what the comparator answers
  (true, true) on.
\<close>

definition unchanged_pair :: "component \<Rightarrow> component \<Rightarrow> bool" where
  "unchanged_pair comp1 comp2 \<longleftrightarrow>
     cname comp1 = cname comp2 \<and> nonvolatile_diff comp1 comp2 = []
     \<and> same_subcomponents comp1 comp2"

section \<open>Example documents\<close>

definition ex_attendee :: string where
  "ex_attendee = ''mailto:user2@example.com''"

definition ex_prop :: "string \<Rightarrow> string \<Rightarrow> property" where
  "ex_prop n v = \<lparr>pname = n, pvalue = v, pparams = []\<rparr>"

definition ex_att :: "string \<Rightarrow> string \<Rightarrow> property" where
  "ex_att who partstat =
     \<lparr>pname = ''ATTENDEE'', pvalue = who, pparams = [(''PARTSTAT'', partstat)]\<rparr>"

definition ex_event :: "property list \<Rightarrow> component" where
  "ex_event extra =
     Component ''VEVENT''
       ([ex_prop ''UID'' ''1'', ex_prop ''SUMMARY'' ''Meeting''] @ extra) []"

definition ex_calendar :: "component list \<Rightarrow> component" where
  "ex_calendar comps =
     Component ''VCALENDAR''
       [ex_prop ''VERSION'' ''2.0'', ex_prop ''PRODID'' ''-//Example//EN''] comps"

definition ex_alarm :: component where
  "ex_alarm = Component ''VALARM'' [ex_prop ''ACTION'' ''DISPLAY''] []"

text \<open>
  One instance of the collaborators: extension properties are those named \<open>X-...\<close>,
  the attendee view drops the other attendees, message preparation changes nothing,
  and an instance is derived from the first component that has no recurrence
  identifier by giving it one.
\<close>

fun ex_removeX :: "component \<Rightarrow> component" where
  "ex_removeX (Component n ps ss) =
     Component n [p \<leftarrow> ps. take 2 (pname p) \<noteq> ''X-''] (map ex_removeX ss)"

fun ex_view :: "string list \<Rightarrow> component \<Rightarrow> component" where
  "ex_view atts (Component n ps ss) =
     Component n [p \<leftarrow> ps. pname p = ''ATTENDEE'' \<longrightarrow> pvalue p \<in> set atts]
       (map (ex_view atts) ss)"

definition ex_value :: "component \<Rightarrow> string \<Rightarrow> string option" where
  "ex_value c n =
     (case [p \<leftarrow> cprops c. pname p = n] of [] \<Rightarrow> None | p # _ \<Rightarrow> Some (pvalue p))"

definition ex_derive :: "component \<Rightarrow> utc option \<Rightarrow> component option" where
  "ex_derive cal rid =
     (case rid of
        None \<Rightarrow> None
      | Some r \<Rightarrow>
          (case [c \<leftarrow> csubs cal. cname c \<noteq> ''VTIMEZONE'' \<and> ex_value c ''RECURRENCE-ID'' = None] of
             [] \<Rightarrow> None
           | master # _ \<Rightarrow>
               Some (Component (cname master)
                 (cprops master @ [ex_prop ''RECURRENCE-ID'' r]) (csubs master))))"

definition ex_env :: collaborators where
  "ex_env =
     \<lparr>removeXProperties = ex_removeX,
      attendeesView = ex_view,
      prepareSchedulingMessage = (\<lambda>c. c),
      propertyValue = ex_value,
      getRecurrenceIDUTC = (\<lambda>c. ex_value c ''RECURRENCE-ID''),
      deriveInstance = ex_derive\<rparr>"

definition ex_self :: iCalDiff where
  "ex_self = \<lparr>calendar1 = 0, calendar2 = 1, attendee = None\<rparr>"

text \<open>
  The organizer's document, with two attendees, and copies submitted by the first
  attendee: unchanged, with the own participation status changed, with the location
  changed, with the event replaced by a task, and with an overridden instance added.
  The last two documents have no master: only overridden instances.
\<close>

definition ex_rid1 :: utc where
  "ex_rid1 = ''20080102T120000Z''"

definition ex_rid2 :: utc where
  "ex_rid2 = ''20080103T120000Z''"

definition ex_docA :: component where
  "ex_docA = ex_calendar
     [ex_event [ex_att ex_attendee ''NEEDS-ACTION'',
                ex_att ''mailto:user3@example.com'' ''ACCEPTED'']]"

definition ex_docB_same :: component where
  "ex_docB_same = ex_calendar [ex_event [ex_att ex_attendee ''NEEDS-ACTION'']]"

definition ex_docB_accepted :: component where
  "ex_docB_accepted = ex_calendar [ex_event [ex_att ex_attendee ''ACCEPTED'']]"

definition ex_docB_location :: component where
  "ex_docB_location = ex_calendar
     [ex_event [ex_att ex_attendee ''NEEDS-ACTION'', ex_prop ''LOCATION'' ''Elsewhere'']]"

definition ex_docB_task :: component where
  "ex_docB_task = ex_calendar [Component ''VTODO'' [ex_prop ''UID'' ''2''] []]"

definition ex_docB_override :: component where
  "ex_docB_override = ex_calendar
     [ex_event [ex_att ex_attendee ''NEEDS-ACTION''],
      ex_event [ex_att ex_attendee ''ACCEPTED'', ex_prop ''RECURRENCE-ID'' ex_rid1]]"

definition ex_docA_instance :: component where
  "ex_docA_instance = ex_calendar
     [ex_event [ex_att ex_attendee ''NEEDS-ACTION'', ex_prop ''RECURRENCE-ID'' ex_rid1]]"

definition ex_docB_instances :: component where
  "ex_docB_instances = ex_calendar
     [ex_event [ex_att ex_attendee ''NEEDS-ACTION'', ex_prop ''RECURRENCE-ID'' ex_rid1],
      ex_event [ex_att ex_attendee ''NEEDS-ACTION'', ex_prop ''RECURRENCE-ID'' ex_rid2]]"

text \<open>The unchanged copy with an instance added that repeats the master.\<close>

definition ex_docB_instance :: component where
  "ex_docB_instance = ex_calendar
     [ex_event [ex_att ex_attendee ''NEEDS-ACTION''],
      ex_event [ex_att ex_attendee ''NEEDS-ACTION'', ex_prop ''RECURRENCE-ID'' ex_rid1]]"

text \<open>The unchanged copy with an alarm in its event.\<close>

definition ex_docB_alarm :: component where
  "ex_docB_alarm = ex_calendar
     [Component ''VEVENT''
        [ex_prop ''UID'' ''1'', ex_prop ''SUMMARY'' ''Meeting'',
         ex_att ex_attendee ''NEEDS-ACTION'']
        [ex_alarm]]"

section \<open>Properties of the component comparator\<close>

lemmas ex_defs = ex_attendee_def ex_prop_def ex_att_def ex_event_def ex_calendar_def
  ex_alarm_def ex_value_def ex_derive_def ex_env_def ex_self_def

lemmas ex_docs = ex_docA_def ex_docB_same_def ex_docB_accepted_def ex_docB_location_def
  ex_docB_task_def ex_docB_override_def ex_docA_instance_def ex_docB_instances_def
  ex_rid1_def ex_rid2_def ex_docB_alarm_def

lemma set_symdiff: "set (symdiff xs ys) = (set xs - set ys) \<union> (set ys - set xs)"
  by (auto simp: symdiff_def)

lemma testProps_None:
  "testProps att xs d = None \<longleftrightarrow>
     (\<exists>p \<in> set xs. pname p \<notin> set volatile \<and> (pname p \<noteq> ''ATTENDEE'' \<or> pvalue p \<noteq> att))"
  by (induction xs arbitrary: d) auto

lemma testProps_Some:
  "testProps att xs d = Some d' \<Longrightarrow> set d' = set d - {p \<in> set xs. pname p \<in> set volatile}"
  by (induction xs arbitrary: d) (auto split: if_splits)

lemma testComponents_char:
  "testComponents att comp1 comp2 =
     (if cname comp1 \<noteq> cname comp2 then (False, False)
      else if \<exists>p \<in> set (nonvolatile_diff comp1 comp2). \<not> own_attendee att p
        then (False, False)
      else if \<not> same_subcomponents comp1 comp2 then (False, False)
      else (True, nonvolatile_diff comp1 comp2 = []))"
proof (cases "testProps att (symdiff (cprops comp1) (cprops comp2))
                (symdiff (cprops comp1) (cprops comp2))")
  case None
  then have "\<exists>p \<in> set (nonvolatile_diff comp1 comp2). \<not> own_attendee att p"
    unfolding testProps_None nonvolatile_diff_def own_attendee_def by auto
  with None show ?thesis
    by (simp add: testComponents_def)
next
  case (Some d')
  then have ok: "\<not> (\<exists>p \<in> set (nonvolatile_diff comp1 comp2). \<not> own_attendee att p)"
    using testProps_None [of att "symdiff (cprops comp1) (cprops comp2)"
        "symdiff (cprops comp1) (cprops comp2)"]
    unfolding nonvolatile_diff_def own_attendee_def by auto
  have "set d' = set (nonvolatile_diff comp1 comp2)"
    using testProps_Some [OF Some] unfolding nonvolatile_diff_def by auto
  then have "(d' = []) = (nonvolatile_diff comp1 comp2 = [])"
    by (metis set_empty)
  with Some ok show ?thesis
    by (simp add: testComponents_def same_subcomponents_def)
qed

section \<open>Properties of the component matcher\<close>

lemma comp_eq_refl: "comp_eq c c"
  by (induction c) auto

lemma map_of_key_present:
  "k \<in> set (map fst m) \<Longrightarrow> \<exists>c. map_of m k = Some c"
  by (induction m) auto

lemma matched_loop_char:
  assumes "set (map fst items) \<subseteq> set (map fst map_2)"
  shows "matched_loop att items map_2 au =
     (if \<forall>kv \<in> set items. matched_ok att map_2 kv
      then Next (au \<and> (\<forall>kv \<in> set items. matched_flag att map_2 kv))
      else Return (False, False))"
  using assms
proof (induction items arbitrary: au)
  case Nil
  show ?case by simp
next
  case (Cons kv items)
  obtain key component1 where kv: "kv = (key, component1)"
    by (cases kv)
  from Cons.prems kv obtain component2 where c2: "map_of map_2 key = Some component2"
    using map_of_key_present [of key map_2] by auto
  obtain a b where t: "testComponents att component1 component2 = (a, b)"
    by (cases "testComponents att component1 component2")
  from Cons.prems have sub: "set (map fst items) \<subseteq> set (map fst map_2)"
    by simp
  show ?case
  proof (cases a)
    case False
    with kv c2 t show ?thesis
      by (simp add: matched_ok_def)
  next
    case True
    with kv c2 t Cons.IH [OF sub, of "au \<and> b"] show ?thesis
      by (auto simp: matched_ok_def matched_flag_def)
  qed
qed

lemma derived_loop_char:
  assumes "set keys \<subseteq> set (map fst map_2)"
  shows "derived_loop env att cal1 keys map_2 au =
     (if \<forall>k \<in> set keys. derived_ok env att cal1 map_2 k
      then Next (au \<and> (\<forall>k \<in> set keys. derived_flag env att cal1 map_2 k))
      else Return (False, False))"
  using assms
proof (induction keys arbitrary: au)
  case Nil
  show ?case by simp
next
  case (Cons key keys)
  from Cons.prems obtain component2 where c2: "map_of map_2 key = Some component2"
    using map_of_key_present [of key map_2] by auto
  from Cons.prems have sub: "set keys \<subseteq> set (map fst map_2)"
    by simp
  show ?case
  proof (cases "deriveInstance env cal1 (snd (snd key))")
    case None
    then show ?thesis
      by (simp add: derived_ok_def)
  next
    case (Some component1)
    obtain a b where t: "testComponents att component1 component2 = (a, b)"
      by (cases "testComponents att component1 component2")
    show ?thesis
    proof (cases a)
      case False
      with Some c2 t show ?thesis
        by (simp add: derived_ok_def)
    next
      case True
      with Some c2 t Cons.IH [OF sub, of "au \<and> b"] show ?thesis
        by (auto simp: derived_ok_def derived_flag_def)
    qed
  qed
qed

lemma compareComponents_char:
  "compareComponents env att cal1 cal2 =
     (if set (keys_of env cal1) \<subseteq> set (keys_of env cal2)
         \<and> (\<forall>kv \<in> set (mapComponents env cal1). matched_ok att (mapComponents env cal2) kv)
         \<and> (\<forall>k \<in> set (only_in_second env cal1 cal2).
               derived_ok env att cal1 (mapComponents env cal2) k)
      then Inr (True,
             (\<forall>kv \<in> set (mapComponents env cal1). matched_flag att (mapComponents env cal2) kv)
           \<and> (\<forall>k \<in> set (only_in_second env cal1 cal2).
                 derived_flag env att cal1 (mapComponents env cal2) k))
      else Inr (False, False))"
proof (cases "set (keys_of env cal1) \<subseteq> set (keys_of env cal2)")
  case False
  then have "[k \<leftarrow> keys_of env cal1. k \<notin> set (keys_of env cal2)] \<noteq> []"
    by (auto simp: filter_empty_conv)
  with False show ?thesis
    by (simp add: compareComponents_def keys_of_def Let_def)
next
  case True
  define m1 where "m1 = mapComponents env cal1"
  define m2 where "m2 = mapComponents env cal2"
  define ks where "ks = [k \<leftarrow> map fst m2. k \<notin> set (map fst m1)]"
  have m: "set (map fst m1) \<subseteq> set (map fst m2)"
    using True by (simp add: keys_of_def m1_def m2_def)
  then have e: "[k \<leftarrow> map fst m1. k \<notin> set (map fst m2)] = []"
    unfolding filter_empty_conv by blast
  have d: "set ks \<subseteq> set (map fst m2)"
    by (auto simp: ks_def)
  have ks: "only_in_second env cal1 cal2 = ks"
    by (simp only: only_in_second_def keys_of_def ks_def m1_def m2_def)
  have unfold: "compareComponents env att cal1 cal2 =
      (case matched_loop att m1 m2 True of
         Raise e \<Rightarrow> Inl e
       | Return r \<Rightarrow> Inr r
       | Next attendee_unchanged \<Rightarrow>
           (case derived_loop env att cal1 ks m2 attendee_unchanged of
              Raise e \<Rightarrow> Inl e
            | Return r \<Rightarrow> Inr r
            | Next attendee_unchanged' \<Rightarrow> Inr (True, attendee_unchanged')))"
    unfolding compareComponents_def Let_def m1_def [symmetric] m2_def [symmetric] e
      ks_def [symmetric] by simp
  define A where "A = (\<forall>kv \<in> set m1. matched_ok att m2 kv)"
  define B where "B = (\<forall>k \<in> set ks. derived_ok env att cal1 m2 k)"
  define F where "F = (\<forall>kv \<in> set m1. matched_flag att m2 kv)"
  define G where "G = (\<forall>k \<in> set ks. derived_flag env att cal1 m2 k)"
  have l1: "matched_loop att m1 m2 True = (if A then Next F else Return (False, False))"
    unfolding matched_loop_char [OF m] A_def F_def by simp
  have l2: "derived_loop env att cal1 ks m2 F =
      (if B then Next (F \<and> G) else Return (False, False))"
    unfolding derived_loop_char [OF d] B_def G_def by simp
  have "compareComponents env att cal1 cal2 =
      (if A \<and> B then Inr (True, F \<and> G) else Inr (False, False))"
    unfolding unfold l1 by (cases A; cases B; simp add: l2)
  then show ?thesis
    using True unfolding ks A_def B_def F_def G_def m1_def m2_def by simp
qed

section \<open>Properties of the store operations\<close>

lemma duplicate_then_in_place:
  "a < length h \<Longrightarrow>
   in_place f (fst (duplicate a h)) (snd (duplicate a h)) = h @ [f (h ! a)]"
  by (simp add: duplicate_def in_place_def)

lemma in_place_last:
  "in_place f (length h) (h @ [c]) = h @ [f c]"
  by (simp add: in_place_def)

lemma organizerDiff_run:
  assumes "calendar1 self < length h" and "calendar2 self < length h"
  shows "organizerDiff (self, h) =
     (comp_eq (removeAlarms (h ! calendar1 self)) (removeAlarms (h ! calendar2 self)),
      self\<lparr>calendar1 := length h, calendar2 := Suc (length h)\<rparr>,
      h @ [removeAlarms (h ! calendar1 self), removeAlarms (h ! calendar2 self)])"
  using assms
  by (simp add: organizerDiff_def duplicate_def in_place_def Let_def nth_append)

lemma attendeeMerge_run:
  assumes "calendar1 self < length h" and "calendar2 self < length h"
  shows "attendeeMerge env att (self, h) =
     (let c1 = organizer_copy env att (h ! calendar1 self);
          c2 = attendee_copy env (h ! calendar2 self)
      in (if comp_eq c1 c2 then Inr (True, True)
          else if \<not> checkVCALENDARProperties c1 c2 then Inr (False, False)
          else if \<not> compareVTIMEZONEs env c1 c2 then Inr (False, False)
          else compareComponents env att c1 c2,
          self\<lparr>attendee := Some att, calendar1 := length h, calendar2 := Suc (length h)\<rparr>,
          h @ [c1, c2]))"
  using assms
  by (simp add: attendeeMerge_def duplicate_def in_place_def Let_def nth_append
      organizer_copy_def attendee_copy_def)


section \<open>The comparator as a function of the property sets\<close>

lemma set_nonvolatile_diff:
  "set (nonvolatile_diff comp1 comp2) =
     {p \<in> (set (cprops comp1) - set (cprops comp2)) \<union> (set (cprops comp2) - set (cprops comp1)).
        pname p \<notin> set volatile}"
  by (auto simp: nonvolatile_diff_def set_symdiff)

lemma testComponents_sets:
  "testComponents att comp1 comp2 =
     (if cname comp1 \<noteq> cname comp2 then (False, False)
      else if \<exists>p \<in> set (nonvolatile_diff comp1 comp2). \<not> own_attendee att p
        then (False, False)
      else if \<not> same_subcomponents comp1 comp2 then (False, False)
      else (True, set (nonvolatile_diff comp1 comp2) = {}))"
  by (simp add: testComponents_char)

lemma testComponents_cong:
  assumes "cname a = cname a'" and "cname b = cname b'"
    and "csubs a = csubs a'" and "csubs b = csubs b'"
    and "set (nonvolatile_diff a b) = set (nonvolatile_diff a' b')"
  shows "testComponents att a b = testComponents att a' b'"
  using assms unfolding testComponents_sets same_subcomponents_def by simp

section \<open>The example documents, evaluated\<close>

lemma ex_organizer_copy: "organizer_copy ex_env ex_attendee ex_docA = ex_docB_same"
  by (simp add: organizer_copy_def ex_defs ex_docs)

lemma ex_attendee_copy:
  "attendee_copy ex_env ex_docB_same = ex_docB_same"
  "attendee_copy ex_env ex_docB_accepted = ex_docB_accepted"
  "attendee_copy ex_env ex_docB_location = ex_docB_location"
  "attendee_copy ex_env ex_docB_task = ex_docB_task"
  "attendee_copy ex_env ex_docB_override = ex_docB_override"
  by (simp_all add: attendee_copy_def ex_defs ex_docs)

lemma ex_keys:
  "keys_of ex_env ex_docB_same = [(''VEVENT'', Some ''1'', None)]"
  "keys_of ex_env ex_docB_accepted = [(''VEVENT'', Some ''1'', None)]"
  "keys_of ex_env ex_docB_location = [(''VEVENT'', Some ''1'', None)]"
  "keys_of ex_env ex_docB_task = [(''VTODO'', Some ''2'', None)]"
  "keys_of ex_env ex_docB_override =
     [(''VEVENT'', Some ''1'', None), (''VEVENT'', Some ''1'', Some ex_rid1)]"
  "keys_of ex_env ex_docA_instance = [(''VEVENT'', Some ''1'', Some ex_rid1)]"
  "keys_of ex_env ex_docB_instances =
     [(''VEVENT'', Some ''1'', Some ex_rid1), (''VEVENT'', Some ''1'', Some ex_rid2)]"
  by (simp_all add: keys_of_def mapComponents_def Let_def ex_defs ex_docs)

lemma ex_maps:
  "mapComponents ex_env ex_docB_task = [((''VTODO'', Some ''2'', None), Component ''VTODO'' [ex_prop ''UID'' ''2''] [])]"
  "mapComponents ex_env ex_docB_instances =
     [((''VEVENT'', Some ''1'', Some ex_rid1),
       ex_event [ex_att ex_attendee ''NEEDS-ACTION'', ex_prop ''RECURRENCE-ID'' ex_rid1]),
      ((''VEVENT'', Some ''1'', Some ex_rid2),
       ex_event [ex_att ex_attendee ''NEEDS-ACTION'', ex_prop ''RECURRENCE-ID'' ex_rid2])]"
  "mapComponents ex_env ex_docB_override =
     [((''VEVENT'', Some ''1'', None), ex_event [ex_att ex_attendee ''NEEDS-ACTION'']),
      ((''VEVENT'', Some ''1'', Some ex_rid1),
       ex_event [ex_att ex_attendee ''ACCEPTED'', ex_prop ''RECURRENCE-ID'' ex_rid1])]"
  by (simp_all add: mapComponents_def Let_def ex_defs ex_docs)

lemma ex_store_valid:
  "calendar1 ex_self < length [a, b]" "calendar2 ex_self < length [a, b]"
  "[a, b] ! calendar1 ex_self = a" "[a, b] ! calendar2 ex_self = b"
  by (simp_all add: ex_self_def)

lemma compareComponents_no_error: "compareComponents env att cal1 cal2 \<noteq> Inl e"
  by (simp add: compareComponents_char)

lemma only_in_second_keys:
  "k \<in> set (only_in_second env cal1 cal2) \<Longrightarrow> k \<in> set (map fst (mapComponents env cal2))"
  by (simp add: only_in_second_def keys_of_def)

lemma ex_only:
  "only_in_second ex_env ex_docB_same ex_docB_override = [(''VEVENT'', Some ''1'', Some ex_rid1)]"
  "only_in_second ex_env ex_docA_instance ex_docB_instances =
     [(''VEVENT'', Some ''1'', Some ex_rid2)]"
  by (simp_all add: only_in_second_def ex_keys ex_rid1_def ex_rid2_def)

lemma ex_derived:
  "deriveInstance ex_env ex_docB_same (Some ex_rid1) =
     Some (ex_event [ex_att ex_attendee ''NEEDS-ACTION'', ex_prop ''RECURRENCE-ID'' ex_rid1])"
  "deriveInstance ex_env ex_docA_instance (Some ex_rid2) = None"
  by (simp_all add: ex_defs ex_docs)

lemma derived_failure_rejects:
  assumes "key \<in> set (only_in_second env cal1 cal2)"
    and "\<not> derived_ok env att cal1 (mapComponents env cal2) key"
  shows "compareComponents env att cal1 cal2 = Inr (False, False)"
proof -
  from assms have "\<not> (\<forall>k \<in> set (only_in_second env cal1 cal2).
      derived_ok env att cal1 (mapComponents env cal2) k)"
    by meson
  then show ?thesis
    by (simp only: compareComponents_char simp_thms if_False)
qed

lemma only_in_second_lookup:
  assumes "key \<in> set (only_in_second env cal1 cal2)"
  shows "\<exists>c2. map_of (mapComponents env cal2) key = Some c2"
  by (rule map_of_key_present [OF only_in_second_keys [OF assms]])

lemma compareComponents_accepts:
  assumes "compareComponents env att cal1 cal2 = Inr (True, u)"
  shows "(\<forall>k \<in> set (only_in_second env cal1 cal2).
        derived_ok env att cal1 (mapComponents env cal2) k)
    \<and> u = ((\<forall>kv \<in> set (mapComponents env cal1).
                    matched_flag att (mapComponents env cal2) kv) \<and>
                 (\<forall>k \<in> set (only_in_second env cal1 cal2).
                    derived_flag env att cal1 (mapComponents env cal2) k))"
proof -
  define A where "A = (set (keys_of env cal1) \<subseteq> set (keys_of env cal2)
         \<and> (\<forall>kv \<in> set (mapComponents env cal1). matched_ok att (mapComponents env cal2) kv))"
  define B where "B = (\<forall>k \<in> set (only_in_second env cal1 cal2).
               derived_ok env att cal1 (mapComponents env cal2) k)"
  define F where "F = ((\<forall>kv \<in> set (mapComponents env cal1).
                    matched_flag att (mapComponents env cal2) kv) \<and>
                 (\<forall>k \<in> set (only_in_second env cal1 cal2).
                    derived_flag env att cal1 (mapComponents env cal2) k))"
  have "compareComponents env att cal1 cal2 = (if A \<and> B then Inr (True, F) else Inr (False, False))"
    unfolding A_def B_def F_def by (simp only: compareComponents_char conj_assoc)
  with assms have "B \<and> u = F"
    by (cases "A \<and> B") simp_all
  then show ?thesis
    unfolding B_def F_def .
qed

lemma removeAlarms_drops_alarm:
  assumes "cname alarm = ''VALARM''"
  shows "removeAlarms (Component n ps (pre @ Component en eps (s1 @ alarm # s2) # post))
       = removeAlarms (Component n ps (pre @ Component en eps (s1 @ s2) # post))"
  using assms by simp

lemma testComponents_unchanged:
  "testComponents att comp1 comp2 = (True, True) \<longleftrightarrow> unchanged_pair comp1 comp2"
  by (auto simp: testComponents_char unchanged_pair_def)

lemma matched_unchanged:
  "matched_ok att m kv \<and> matched_flag att m kv \<longleftrightarrow>
     (\<exists>comp2. map_of m (fst kv) = Some comp2 \<and> unchanged_pair (snd kv) comp2)"
proof (cases "map_of m (fst kv)")
  case None
  then show ?thesis
    by (simp add: matched_ok_def matched_flag_def)
next
  case (Some comp2)
  have "fst (testComponents att (snd kv) comp2) \<and> snd (testComponents att (snd kv) comp2)
      \<longleftrightarrow> testComponents att (snd kv) comp2 = (True, True)"
    by (cases "testComponents att (snd kv) comp2") simp
  with Some show ?thesis
    by (simp add: matched_ok_def matched_flag_def testComponents_unchanged)
qed

lemma derived_unchanged:
  "derived_ok env att cal1 m k \<and> derived_flag env att cal1 m k \<longleftrightarrow>
     (\<exists>d comp2. deriveInstance env cal1 (snd (snd k)) = Some d
        \<and> map_of m k = Some comp2 \<and> unchanged_pair d comp2)"
proof (cases "deriveInstance env cal1 (snd (snd k))")
  case None
  then show ?thesis
    by (simp add: derived_ok_def derived_flag_def)
next
  case d: (Some d)
  show ?thesis
  proof (cases "map_of m k")
    case None
    with d show ?thesis
      by (simp add: derived_ok_def derived_flag_def)
  next
    case (Some comp2)
    have "fst (testComponents att d comp2) \<and> snd (testComponents att d comp2)
        \<longleftrightarrow> testComponents att d comp2 = (True, True)"
      by (cases "testComponents att d comp2") simp
    with d Some show ?thesis
      by (simp add: derived_ok_def derived_flag_def testComponents_unchanged)
  qed
qed

lemma compareComponents_second_True:
  "(\<exists>ok. compareComponents env att c1 c2 = Inr (ok, True)) \<longleftrightarrow>
     set (keys_of env c1) \<subseteq> set (keys_of env c2)
     \<and> (\<forall>kv \<in> set (mapComponents env c1).
           \<exists>comp2. map_of (mapComponents env c2) (fst kv) = Some comp2
              \<and> unchanged_pair (snd kv) comp2)
     \<and> (\<forall>k \<in> set (only_in_second env c1 c2).
           \<exists>d comp2. deriveInstance env c1 (snd (snd k)) = Some d
              \<and> map_of (mapComponents env c2) k = Some comp2 \<and> unchanged_pair d comp2)"
proof -
  define K where "K = (set (keys_of env c1) \<subseteq> set (keys_of env c2))"
  define MO where "MO = (\<forall>kv \<in> set (mapComponents env c1). matched_ok att (mapComponents env c2) kv)"
  define MF where "MF = (\<forall>kv \<in> set (mapComponents env c1). matched_flag att (mapComponents env c2) kv)"
  define DO where "DO = (\<forall>k \<in> set (only_in_second env c1 c2).
      derived_ok env att c1 (mapComponents env c2) k)"
  define DF where "DF = (\<forall>k \<in> set (only_in_second env c1 c2).
      derived_flag env att c1 (mapComponents env c2) k)"
  have "compareComponents env att c1 c2 =
      (if K \<and> MO \<and> DO then Inr (True, MF \<and> DF) else Inr (False, False))"
    unfolding K_def MO_def MF_def DO_def DF_def by (rule compareComponents_char)
  then have "(\<exists>ok. compareComponents env att c1 c2 = Inr (ok, True)) \<longleftrightarrow>
      K \<and> (MO \<and> MF) \<and> (DO \<and> DF)"
    by (cases "K \<and> MO \<and> DO") auto
  moreover have "MO \<and> MF \<longleftrightarrow> (\<forall>kv \<in> set (mapComponents env c1).
      \<exists>comp2. map_of (mapComponents env c2) (fst kv) = Some comp2
         \<and> unchanged_pair (snd kv) comp2)"
    unfolding MO_def MF_def ball_conj_distrib [symmetric] matched_unchanged ..
  moreover have "DO \<and> DF \<longleftrightarrow> (\<forall>k \<in> set (only_in_second env c1 c2).
      \<exists>d comp2. deriveInstance env c1 (snd (snd k)) = Some d
         \<and> map_of (mapComponents env c2) k = Some comp2 \<and> unchanged_pair d comp2)"
    unfolding DO_def DF_def ball_conj_distrib [symmetric] derived_unchanged ..
  ultimately show ?thesis
    unfolding K_def by (simp only:)
qed

lemma ex_maps_same:
  "mapComponents ex_env ex_docB_same =
     [((''VEVENT'', Some ''1'', None), ex_event [ex_att ex_attendee ''NEEDS-ACTION''])]"
  "mapComponents ex_env ex_docB_accepted =
     [((''VEVENT'', Some ''1'', None), ex_event [ex_att ex_attendee ''ACCEPTED''])]"
  by (simp_all add: mapComponents_def Let_def ex_defs ex_docs)

lemma ex_only_accepted: "only_in_second ex_env ex_docB_same ex_docB_accepted = []"
  by (simp add: only_in_second_def ex_keys)

lemma ex_own_change:
  "testComponents ex_attendee (ex_event [ex_att ex_attendee ''NEEDS-ACTION''])
     (ex_event [ex_att ex_attendee ''ACCEPTED'']) = (True, False)"
  by (simp add: testComponents_def symdiff_def symdiff_by_def volatile_def
      ex_event_def ex_att_def ex_prop_def)

lemma ex_compare_accepted:
  "compareComponents ex_env ex_attendee ex_docB_same ex_docB_accepted = Inr (True, False)"
  by (simp add: compareComponents_char ex_keys ex_maps_same ex_only_accepted
      matched_ok_def matched_flag_def ex_own_change)

lemma ex_same_equal: "comp_eq ex_docB_same ex_docB_same"
  by (rule comp_eq_refl)

lemma ex_accepted_differs: "\<not> comp_eq ex_docB_same ex_docB_accepted"
proof
  let ?a = "ex_event [ex_att ex_attendee ''NEEDS-ACTION'']"
  let ?b = "ex_event [ex_att ex_attendee ''ACCEPTED'']"
  assume "comp_eq ex_docB_same ex_docB_accepted"
  then have "comp_eq ?a ?b"
    by (simp add: ex_docs ex_calendar_def)
  then have "set (cprops ?a) = set (cprops ?b)"
    by (simp add: ex_event_def)
  moreover have "ex_att ex_attendee ''ACCEPTED'' \<in> set (cprops ?b)"
    by (simp add: ex_event_def)
  moreover have "ex_att ex_attendee ''ACCEPTED'' \<notin> set (cprops ?a)"
    by (simp add: ex_event_def ex_att_def ex_prop_def)
  ultimately show False
    by simp
qed

lemma ex_checks_accepted:
  "checkVCALENDARProperties ex_docB_same ex_docB_accepted"
  "compareVTIMEZONEs ex_env ex_docB_same ex_docB_accepted"
  by (simp_all add: checkVCALENDARProperties_def symdiff_def compareVTIMEZONEs_def
      extractTZIDs_def ex_docs ex_calendar_def ex_event_def)

lemma ex_instance_map:
  "mapComponents ex_env ex_docB_instance =
     [((''VEVENT'', Some ''1'', None), ex_event [ex_att ex_attendee ''NEEDS-ACTION'']),
      ((''VEVENT'', Some ''1'', Some ex_rid1),
       ex_event [ex_att ex_attendee ''NEEDS-ACTION'', ex_prop ''RECURRENCE-ID'' ex_rid1])]"
  by (simp add: mapComponents_def Let_def ex_defs ex_docs ex_docB_instance_def)

lemma ex_instance_only:
  "keys_of ex_env ex_docB_instance =
     [(''VEVENT'', Some ''1'', None), (''VEVENT'', Some ''1'', Some ex_rid1)]"
  "only_in_second ex_env ex_docB_same ex_docB_instance =
     [(''VEVENT'', Some ''1'', Some ex_rid1)]"
  by (simp_all add: only_in_second_def keys_of_def ex_instance_map ex_maps_same ex_rid1_def)

lemma ex_unchanged_instance:
  "testComponents ex_attendee
     (ex_event [ex_att ex_attendee ''NEEDS-ACTION'', ex_prop ''RECURRENCE-ID'' ex_rid1])
     (ex_event [ex_att ex_attendee ''NEEDS-ACTION'', ex_prop ''RECURRENCE-ID'' ex_rid1])
   = (True, True)"
  by (simp add: testComponents_def symdiff_def symdiff_by_def ex_event_def)

lemma ex_matched_pair:
  "testComponents ex_attendee (ex_event [ex_att ex_attendee ''NEEDS-ACTION''])
     (ex_event [ex_att ex_attendee ''NEEDS-ACTION'']) = (True, True)"
  by (simp add: testComponents_def symdiff_def symdiff_by_def ex_event_def)

lemma ex_derived_pair:
  "testComponents ex_attendee
     (ex_event [ex_att ex_attendee ''NEEDS-ACTION'', ex_prop ''RECURRENCE-ID'' ex_rid1])
     (ex_event [ex_att ex_attendee ''ACCEPTED'', ex_prop ''RECURRENCE-ID'' ex_rid1])
   = (True, False)"
  by (simp add: testComponents_def symdiff_def symdiff_by_def volatile_def
      ex_event_def ex_att_def ex_prop_def)

section \<open>Verified claims\<close>

text \<open>
  C1. For two components with the same type name and equal subcomponent sets: if the
  property differences that remain once the volatile names are discarded are not empty
  and all are the \<open>ATTENDEE\<close> property of the tested attendee, the comparator returns
  (true, false); if any other non-volatile difference remains (another name, or an
  \<open>ATTENDEE\<close> of someone else), it returns (false, false), whatever permitted
  differences there are beside it.
\<close>

theorem attendee_exclusivity:
  assumes "cname comp1 = cname comp2" and "same_subcomponents comp1 comp2"
  shows "(nonvolatile_diff comp1 comp2 \<noteq> [] \<and>
            (\<forall>p \<in> set (nonvolatile_diff comp1 comp2). own_attendee att p)
          \<longrightarrow> testComponents att comp1 comp2 = (True, False))
       \<and> ((\<exists>p \<in> set (nonvolatile_diff comp1 comp2).
              pname p \<noteq> ''ATTENDEE'' \<or> pvalue p \<noteq> att)
          \<longrightarrow> testComponents att comp1 comp2 = (False, False))"
  using assms by (auto simp: testComponents_char own_attendee_def)

theorem attendee_exclusivity_witness:
  "testComponents ex_attendee
     (ex_event [ex_att ex_attendee ''NEEDS-ACTION'', ex_prop ''SEQUENCE'' ''1''])
     (ex_event [ex_att ex_attendee ''ACCEPTED'', ex_prop ''SEQUENCE'' ''2'']) = (True, False)
   \<and> testComponents ex_attendee
     (ex_event [ex_att ex_attendee ''NEEDS-ACTION'', ex_prop ''LOCATION'' ''Room 1''])
     (ex_event [ex_att ex_attendee ''ACCEPTED'', ex_prop ''LOCATION'' ''Room 2'']) = (False, False)"
proof -
  let ?a = "ex_event [ex_att ex_attendee ''NEEDS-ACTION'', ex_prop ''SEQUENCE'' ''1'']"
  let ?b = "ex_event [ex_att ex_attendee ''ACCEPTED'', ex_prop ''SEQUENCE'' ''2'']"
  let ?c = "ex_event [ex_att ex_attendee ''NEEDS-ACTION'', ex_prop ''LOCATION'' ''Room 1'']"
  let ?d = "ex_event [ex_att ex_attendee ''ACCEPTED'', ex_prop ''LOCATION'' ''Room 2'']"
  have n1: "cname ?a = cname ?b" and n2: "cname ?c = cname ?d"
    by (simp_all add: ex_defs)
  have s1: "same_subcomponents ?a ?b" and s2: "same_subcomponents ?c ?d"
    by (simp_all add: ex_defs same_subcomponents_def symdiff_by_def)
  have d1: "nonvolatile_diff ?a ?b =
      [ex_att ex_attendee ''NEEDS-ACTION'', ex_att ex_attendee ''ACCEPTED'']"
    by (simp add: ex_defs nonvolatile_diff_def symdiff_def volatile_def)
  have d2: "nonvolatile_diff ?c ?d =
      [ex_att ex_attendee ''NEEDS-ACTION'', ex_prop ''LOCATION'' ''Room 1'',
       ex_att ex_attendee ''ACCEPTED'', ex_prop ''LOCATION'' ''Room 2'']"
    by (simp add: ex_defs nonvolatile_diff_def symdiff_def volatile_def)
  have "testComponents ex_attendee ?a ?b = (True, False)"
    using attendee_exclusivity [OF n1 s1, of ex_attendee] unfolding d1
    by (simp add: own_attendee_def ex_defs)
  moreover have "testComponents ex_attendee ?c ?d = (False, False)"
    using attendee_exclusivity [OF n2 s2, of ex_attendee] unfolding d2
    by (simp add: own_attendee_def ex_defs)
  ultimately show ?thesis by simp
qed

text \<open>
  C6. Adding a property with a volatile name (\<open>TRANSP\<close>, \<open>DTSTAMP\<close>, \<open>CREATED\<close>,
  \<open>LAST-MODIFIED\<close>, \<open>SEQUENCE\<close>) to a component, or removing it, changes neither boolean
  of the comparator's result, whether the component is the first or the second argument.
\<close>

theorem volatile_symmetry:
  assumes "pname p \<in> set volatile"
    and "cname comp1' = cname comp1" and "csubs comp1' = csubs comp1"
    and "set (cprops comp1') = insert p (set (cprops comp1))
       \<or> set (cprops comp1') = set (cprops comp1) - {p}"
  shows "testComponents att comp1' comp2 = testComponents att comp1 comp2
       \<and> testComponents att comp2 comp1' = testComponents att comp2 comp1"
proof -
  from assms(4) have "\<forall>q. q \<noteq> p \<longrightarrow> (q \<in> set (cprops comp1') \<longleftrightarrow> q \<in> set (cprops comp1))"
    by (elim disjE) simp_all
  with assms(1) have mem:
    "\<And>q. pname q \<notin> set volatile \<Longrightarrow> q \<in> set (cprops comp1') \<longleftrightarrow> q \<in> set (cprops comp1)"
    by metis
  have d1: "set (nonvolatile_diff comp1' comp2) = set (nonvolatile_diff comp1 comp2)"
    and d2: "set (nonvolatile_diff comp2 comp1') = set (nonvolatile_diff comp2 comp1)"
    unfolding set_nonvolatile_diff using mem by auto
  have "testComponents att comp1' comp2 = testComponents att comp1 comp2"
    by (rule testComponents_cong [OF assms(2) refl assms(3) refl d1])
  moreover have "testComponents att comp2 comp1' = testComponents att comp2 comp1"
    by (rule testComponents_cong [OF refl assms(2) refl assms(3) d2])
  ultimately show ?thesis ..
qed

theorem volatile_symmetry_witness:
  "testComponents ex_attendee
     (ex_event [ex_att ex_attendee ''NEEDS-ACTION'', ex_prop ''SEQUENCE'' ''2''])
     (ex_event [ex_att ex_attendee ''ACCEPTED''])
   = testComponents ex_attendee
     (ex_event [ex_att ex_attendee ''NEEDS-ACTION''])
     (ex_event [ex_att ex_attendee ''ACCEPTED''])
   \<and> testComponents ex_attendee
     (ex_event [ex_att ex_attendee ''ACCEPTED''])
     (ex_event [ex_att ex_attendee ''NEEDS-ACTION'', ex_prop ''SEQUENCE'' ''2''])
   = testComponents ex_attendee
     (ex_event [ex_att ex_attendee ''ACCEPTED''])
     (ex_event [ex_att ex_attendee ''NEEDS-ACTION''])"
proof -
  let ?p = "ex_prop ''SEQUENCE'' ''2''"
  let ?a' = "ex_event [ex_att ex_attendee ''NEEDS-ACTION'', ?p]"
  let ?a = "ex_event [ex_att ex_attendee ''NEEDS-ACTION'']"
  have v: "pname ?p \<in> set volatile"
    by (simp add: ex_defs volatile_def)
  have n: "cname ?a' = cname ?a" and s: "csubs ?a' = csubs ?a"
    by (simp_all add: ex_defs)
  have "set (cprops ?a') = insert ?p (set (cprops ?a))"
    by (simp add: ex_event_def insert_commute)
  then have d: "set (cprops ?a') = insert ?p (set (cprops ?a))
      \<or> set (cprops ?a') = set (cprops ?a) - {?p}" ..
  show ?thesis
    by (rule volatile_symmetry [OF v n s d])
qed

text \<open>
  C10. The comparator never looks at the parameters of the tested attendee's own
  \<open>ATTENDEE\<close> property: when the second component is the first one with that property's
  parameters replaced by any other parameters, the comparator returns (true, false).
\<close>

theorem attendee_parameters_free:
  assumes "cname comp1 = cname comp2" and "same_subcomponents comp1 comp2"
    and "a1 = \<lparr>pname = ''ATTENDEE'', pvalue = att, pparams = params1\<rparr>"
    and "a2 = \<lparr>pname = ''ATTENDEE'', pvalue = att, pparams = params2\<rparr>"
    and "params1 \<noteq> params2"
    and "a1 \<in> set (cprops comp1)"
    and "set (cprops comp2) = insert a2 (set (cprops comp1) - {a1})"
  shows "testComponents att comp1 comp2 = (True, False)"
proof -
  have ne: "a1 \<noteq> a2"
    using assms(3,4,5) by simp
  have nv: "pname a1 \<notin> set volatile" "pname a2 \<notin> set volatile"
    using assms(3,4) by (simp_all add: volatile_def)
  have "a1 \<in> set (nonvolatile_diff comp1 comp2)"
    unfolding set_nonvolatile_diff using assms(6,7) ne nv by auto
  moreover have "set (nonvolatile_diff comp1 comp2) \<subseteq> {a1, a2}"
    unfolding set_nonvolatile_diff using assms(7) by auto
  moreover have "own_attendee att a1" "own_attendee att a2"
    using assms(3,4) by (simp_all add: own_attendee_def)
  ultimately show ?thesis
    using assms(1,2) unfolding testComponents_sets by auto
qed

theorem attendee_parameters_free_witness:
  "testComponents ex_attendee
     (ex_event [\<lparr>pname = ''ATTENDEE'', pvalue = ex_attendee,
                 pparams = [(''PARTSTAT'', ''NEEDS-ACTION''), (''ROLE'', ''REQ-PARTICIPANT'')]\<rparr>])
     (ex_event [\<lparr>pname = ''ATTENDEE'', pvalue = ex_attendee,
                 pparams = [(''PARTSTAT'', ''DELEGATED''),
                            (''DELEGATED-TO'', ''mailto:user3@example.com'')]\<rparr>])
   = (True, False)"
proof -
  let ?ps1 = "[(''PARTSTAT'', ''NEEDS-ACTION''), (''ROLE'', ''REQ-PARTICIPANT'')]"
  let ?ps2 = "[(''PARTSTAT'', ''DELEGATED''), (''DELEGATED-TO'', ''mailto:user3@example.com'')]"
  let ?a1 = "\<lparr>pname = ''ATTENDEE'', pvalue = ex_attendee, pparams = ?ps1\<rparr>"
  let ?a2 = "\<lparr>pname = ''ATTENDEE'', pvalue = ex_attendee, pparams = ?ps2\<rparr>"
  have n: "cname (ex_event [?a1]) = cname (ex_event [?a2])"
    by (simp add: ex_defs)
  have s: "same_subcomponents (ex_event [?a1]) (ex_event [?a2])"
    by (simp add: ex_defs same_subcomponents_def symdiff_by_def)
  have p: "?ps1 \<noteq> ?ps2"
    by simp
  have m: "?a1 \<in> set (cprops (ex_event [?a1]))"
    by (simp add: ex_defs)
  have r: "set (cprops (ex_event [?a2])) = insert ?a2 (set (cprops (ex_event [?a1])) - {?a1})"
    by (simp add: ex_event_def ex_prop_def insert_Diff_if insert_commute)
  show ?thesis
    by (rule attendee_parameters_free [OF n s refl refl p m r])
qed

text \<open>
  C8. \<open>attendeeMerge\<close> never returns (false, true): when the first boolean of its result
  is false, so is the second. The same holds for \<open>_compareComponents\<close> and for
  \<open>_testComponents\<close>.
\<close>

theorem never_false_true:
  "fst (attendeeMerge env att (self, h)) \<noteq> Inr (False, True)
   \<and> compareComponents env att cal1 cal2 \<noteq> Inr (False, True)
   \<and> testComponents att comp1 comp2 \<noteq> (False, True)"
proof -
  have c: "compareComponents env att c1 c2 \<noteq> Inr (False, True)" for c1 c2
    by (simp add: compareComponents_char)
  have "fst (attendeeMerge env att (self, h)) \<noteq> Inr (False, True)"
    using c by (simp add: attendeeMerge_def duplicate_def Let_def)
  moreover have "testComponents att comp1 comp2 \<noteq> (False, True)"
    by (simp add: testComponents_char)
  ultimately show ?thesis
    using c by simp
qed

theorem never_false_true_witness:
  "fst (attendeeMerge ex_env ex_attendee (ex_self, [ex_docA, ex_docB_location]))
     \<noteq> Inr (False, True)
   \<and> compareComponents ex_env ex_attendee ex_docB_same ex_docB_location \<noteq> Inr (False, True)
   \<and> testComponents ex_attendee (ex_event []) (ex_event [ex_prop ''LOCATION'' ''Elsewhere''])
     \<noteq> (False, True)"
  by (rule never_false_true)

text \<open>
  C9. In \<open>_compareComponents\<close>, once the subset check has passed (\<open>set1 - set2\<close> is
  empty), every key of \<open>map1\<close> is a key of \<open>map2\<close>: the lookup \<open>map2[key]\<close> of the
  matching loop finds a component, the loop never raises, and the method as a whole
  never ends in \<open>KeyError\<close>.
\<close>

theorem matched_lookup_succeeds:
  "([k \<leftarrow> keys_of env cal1. k \<notin> set (keys_of env cal2)] = [] \<longrightarrow>
      (\<forall>key \<in> set (keys_of env cal1).
          \<exists>component2. map_of (mapComponents env cal2) key = Some component2)
      \<and> (\<forall>au e. matched_loop att (mapComponents env cal1) (mapComponents env cal2) au
             \<noteq> Raise e))
   \<and> (\<forall>e. compareComponents env att cal1 cal2 \<noteq> Inl e)"
proof -
  have "(\<forall>key \<in> set (keys_of env cal1).
          \<exists>component2. map_of (mapComponents env cal2) key = Some component2)
      \<and> (\<forall>au e. matched_loop att (mapComponents env cal1) (mapComponents env cal2) au
             \<noteq> Raise e)"
    if "[k \<leftarrow> keys_of env cal1. k \<notin> set (keys_of env cal2)] = []"
  proof -
    from that have sub: "set (map fst (mapComponents env cal1))
        \<subseteq> set (map fst (mapComponents env cal2))"
      unfolding filter_empty_conv keys_of_def by blast
    then have "\<forall>key \<in> set (keys_of env cal1).
        \<exists>component2. map_of (mapComponents env cal2) key = Some component2"
      unfolding keys_of_def using map_of_key_present [of _ "mapComponents env cal2"] by blast
    moreover have "\<forall>au e. matched_loop att (mapComponents env cal1) (mapComponents env cal2) au
        \<noteq> Raise e"
      by (simp add: matched_loop_char [OF sub])
    ultimately show ?thesis ..
  qed
  then show ?thesis
    using compareComponents_no_error by blast
qed

theorem matched_lookup_succeeds_witness:
  "map_of (mapComponents ex_env ex_docB_override) (''VEVENT'', Some ''1'', None)
     = Some (ex_event [ex_att ex_attendee ''NEEDS-ACTION''])
   \<and> compareComponents ex_env ex_attendee ex_docB_same ex_docB_override \<noteq> Inl KeyError"
proof -
  have e: "[k \<leftarrow> keys_of ex_env ex_docB_same. k \<notin> set (keys_of ex_env ex_docB_override)] = []"
    by (simp add: ex_keys)
  have k: "(''VEVENT'', Some ''1'', None) \<in> set (keys_of ex_env ex_docB_same)"
    by (simp add: ex_keys)
  from matched_lookup_succeeds [where env = ex_env and ?cal1.0 = ex_docB_same
      and ?cal2.0 = ex_docB_override and att = ex_attendee] e k
  obtain component2 where
    "map_of (mapComponents ex_env ex_docB_override) (''VEVENT'', Some ''1'', None)
       = Some component2"
    and "compareComponents ex_env ex_attendee ex_docB_same ex_docB_override \<noteq> Inl KeyError"
    by blast
  then show ?thesis
    by (simp add: ex_maps)
qed

text \<open>
  C3. When the two working copies of \<open>attendeeMerge\<close> are not equal and pass the
  checks of the \<open>VCALENDAR\<close> properties and of the timezones, and some key (component
  type, UID, recurrence identifier) of the first copy's components other than
  \<open>VTIMEZONE\<close> is not a key of the second copy, \<open>attendeeMerge\<close> returns (false, false).
\<close>

theorem missing_component_rejected:
  assumes "calendar1 self < length h" and "calendar2 self < length h"
    and "c1 = organizer_copy env att (h ! calendar1 self)"
    and "c2 = attendee_copy env (h ! calendar2 self)"
    and "\<not> comp_eq c1 c2"
    and "checkVCALENDARProperties c1 c2"
    and "compareVTIMEZONEs env c1 c2"
    and "\<not> set (keys_of env c1) \<subseteq> set (keys_of env c2)"
  shows "fst (attendeeMerge env att (self, h)) = Inr (False, False)"
  using assms(3-8)
  by (simp add: attendeeMerge_run [OF assms(1,2)] Let_def compareComponents_char)

theorem missing_component_rejected_witness:
  "fst (attendeeMerge ex_env ex_attendee (ex_self, [ex_docA, ex_docB_task]))
     = Inr (False, False)"
proof -
  let ?h = "[ex_docA, ex_docB_task]"
  have c1: "ex_docB_same = organizer_copy ex_env ex_attendee (?h ! calendar1 ex_self)"
    by (simp add: ex_store_valid ex_organizer_copy)
  have c2: "ex_docB_task = attendee_copy ex_env (?h ! calendar2 ex_self)"
    by (simp add: ex_store_valid ex_attendee_copy)
  have ne: "\<not> comp_eq ex_docB_same ex_docB_task"
    by (simp add: ex_docs ex_calendar_def ex_event_def)
  have p: "checkVCALENDARProperties ex_docB_same ex_docB_task"
    by (simp add: checkVCALENDARProperties_def symdiff_def ex_docs ex_calendar_def)
  have z: "compareVTIMEZONEs ex_env ex_docB_same ex_docB_task"
    by (simp add: compareVTIMEZONEs_def extractTZIDs_def ex_docs ex_calendar_def ex_event_def)
  have k: "\<not> set (keys_of ex_env ex_docB_same) \<subseteq> set (keys_of ex_env ex_docB_task)"
    by (simp add: ex_keys)
  show ?thesis
    by (rule missing_component_rejected [OF ex_store_valid(1,2) c1 c2 ne p z k])
qed

text \<open>
  C4. For a key that only the second document's map has, the matcher asks the first
  document for the instance derived at the key's recurrence identifier. If there is
  none, \<open>_compareComponents\<close> returns (false, false), and no error. If there is one,
  the second document has a component at the key, and the comparator decides on the
  pair as it does on matched pairs (\<open>derived_ok\<close> and \<open>derived_flag\<close> are the two
  booleans it returns on the pair): a pair it rejects gives (false, false), and when
  the result is (true, u), the pair was accepted. The result as a whole is (true, u),
  with u the conjunction of the second booleans of all matched and all derived pairs,
  exactly when every key of the first map is in the second and the comparator accepts
  every matched and every derived pair; it is (false, false) otherwise.
\<close>

theorem derived_instances:
  assumes "key \<in> set (only_in_second env cal1 cal2)"
  shows "(deriveInstance env cal1 (snd (snd key)) = None \<longrightarrow>
            compareComponents env att cal1 cal2 = Inr (False, False))
       \<and> (\<forall>d. deriveInstance env cal1 (snd (snd key)) = Some d \<longrightarrow>
            (\<exists>c2. map_of (mapComponents env cal2) key = Some c2 \<and>
               derived_ok env att cal1 (mapComponents env cal2) key
                 = fst (testComponents att d c2) \<and>
               derived_flag env att cal1 (mapComponents env cal2) key
                 = snd (testComponents att d c2) \<and>
               (\<not> fst (testComponents att d c2) \<longrightarrow>
                  compareComponents env att cal1 cal2 = Inr (False, False))))
       \<and> (\<forall>u. compareComponents env att cal1 cal2 = Inr (True, u) \<longrightarrow>
            derived_ok env att cal1 (mapComponents env cal2) key \<and>
            u = ((\<forall>kv \<in> set (mapComponents env cal1).
                    matched_flag att (mapComponents env cal2) kv) \<and>
                 (\<forall>k \<in> set (only_in_second env cal1 cal2).
                    derived_flag env att cal1 (mapComponents env cal2) k)))
       \<and> compareComponents env att cal1 cal2 =
            (if set (keys_of env cal1) \<subseteq> set (keys_of env cal2)
                \<and> (\<forall>kv \<in> set (mapComponents env cal1).
                      matched_ok att (mapComponents env cal2) kv)
                \<and> (\<forall>k \<in> set (only_in_second env cal1 cal2).
                      derived_ok env att cal1 (mapComponents env cal2) k)
             then Inr (True,
                    (\<forall>kv \<in> set (mapComponents env cal1).
                       matched_flag att (mapComponents env cal2) kv)
                  \<and> (\<forall>k \<in> set (only_in_second env cal1 cal2).
                       derived_flag env att cal1 (mapComponents env cal2) k))
             else Inr (False, False))"
proof -
  have none: "compareComponents env att cal1 cal2 = Inr (False, False)"
    if "deriveInstance env cal1 (snd (snd key)) = None"
  proof (rule derived_failure_rejects [OF assms])
    from that show "\<not> derived_ok env att cal1 (mapComponents env cal2) key"
      by (simp add: derived_ok_def)
  qed
  have some: "\<exists>c2. map_of (mapComponents env cal2) key = Some c2 \<and>
      derived_ok env att cal1 (mapComponents env cal2) key = fst (testComponents att d c2) \<and>
      derived_flag env att cal1 (mapComponents env cal2) key = snd (testComponents att d c2) \<and>
      (\<not> fst (testComponents att d c2) \<longrightarrow>
         compareComponents env att cal1 cal2 = Inr (False, False))"
    if d: "deriveInstance env cal1 (snd (snd key)) = Some d" for d
  proof -
    from only_in_second_lookup [OF assms] obtain c2
      where c2: "map_of (mapComponents env cal2) key = Some c2" ..
    from d c2 have ok: "derived_ok env att cal1 (mapComponents env cal2) key
        = fst (testComponents att d c2)"
      by (simp add: derived_ok_def)
    from d c2 have flag: "derived_flag env att cal1 (mapComponents env cal2) key
        = snd (testComponents att d c2)"
      by (simp add: derived_flag_def)
    have "compareComponents env att cal1 cal2 = Inr (False, False)"
      if "\<not> fst (testComponents att d c2)"
    proof (rule derived_failure_rejects [OF assms])
      from that ok show "\<not> derived_ok env att cal1 (mapComponents env cal2) key"
        by simp
    qed
    with c2 ok flag show ?thesis
      by (intro exI [of _ c2] conjI impI)
  qed
  have accepted: "derived_ok env att cal1 (mapComponents env cal2) key \<and>
      u = ((\<forall>kv \<in> set (mapComponents env cal1).
              matched_flag att (mapComponents env cal2) kv) \<and>
           (\<forall>k \<in> set (only_in_second env cal1 cal2).
              derived_flag env att cal1 (mapComponents env cal2) k))"
    if "compareComponents env att cal1 cal2 = Inr (True, u)" for u
  proof (rule conjI)
    from compareComponents_accepts [OF that]
    show "derived_ok env att cal1 (mapComponents env cal2) key"
      using assms by (elim conjE) (rule bspec)
    from compareComponents_accepts [OF that]
    show "u = ((\<forall>kv \<in> set (mapComponents env cal1).
              matched_flag att (mapComponents env cal2) kv) \<and>
           (\<forall>k \<in> set (only_in_second env cal1 cal2).
              derived_flag env att cal1 (mapComponents env cal2) k))"
      by (rule conjunct2)
  qed
  show ?thesis
  proof (rule conjI [OF _ conjI [OF _ conjI]])
    show "deriveInstance env cal1 (snd (snd key)) = None \<longrightarrow>
        compareComponents env att cal1 cal2 = Inr (False, False)"
      using none by (rule impI)
    show "\<forall>d. deriveInstance env cal1 (snd (snd key)) = Some d \<longrightarrow>
        (\<exists>c2. map_of (mapComponents env cal2) key = Some c2 \<and>
           derived_ok env att cal1 (mapComponents env cal2) key
             = fst (testComponents att d c2) \<and>
           derived_flag env att cal1 (mapComponents env cal2) key
             = snd (testComponents att d c2) \<and>
           (\<not> fst (testComponents att d c2) \<longrightarrow>
              compareComponents env att cal1 cal2 = Inr (False, False)))"
      using some by (intro allI impI)
    show "\<forall>u. compareComponents env att cal1 cal2 = Inr (True, u) \<longrightarrow>
        derived_ok env att cal1 (mapComponents env cal2) key \<and>
        u = ((\<forall>kv \<in> set (mapComponents env cal1).
                matched_flag att (mapComponents env cal2) kv) \<and>
             (\<forall>k \<in> set (only_in_second env cal1 cal2).
                derived_flag env att cal1 (mapComponents env cal2) k))"
      using accepted by (intro allI impI)
    show "compareComponents env att cal1 cal2 =
        (if set (keys_of env cal1) \<subseteq> set (keys_of env cal2)
            \<and> (\<forall>kv \<in> set (mapComponents env cal1).
                  matched_ok att (mapComponents env cal2) kv)
            \<and> (\<forall>k \<in> set (only_in_second env cal1 cal2).
                  derived_ok env att cal1 (mapComponents env cal2) k)
         then Inr (True,
                (\<forall>kv \<in> set (mapComponents env cal1).
                   matched_flag att (mapComponents env cal2) kv)
              \<and> (\<forall>k \<in> set (only_in_second env cal1 cal2).
                   derived_flag env att cal1 (mapComponents env cal2) k))
         else Inr (False, False))"
      by (rule compareComponents_char)
  qed
qed

theorem derived_instances_witness:
  "compareComponents ex_env ex_attendee ex_docA_instance ex_docB_instances = Inr (False, False)
   \<and> map_of (mapComponents ex_env ex_docB_override) (''VEVENT'', Some ''1'', Some ex_rid1)
       = Some (ex_event [ex_att ex_attendee ''ACCEPTED'', ex_prop ''RECURRENCE-ID'' ex_rid1])
   \<and> compareComponents ex_env ex_attendee ex_docB_same ex_docB_override = Inr (True, False)
   \<and> compareComponents ex_env ex_attendee ex_docB_same ex_docB_instance = Inr (True, True)"
proof -
  let ?k1 = "(''VEVENT'', Some ''1'', Some ex_rid1)"
  let ?k2 = "(''VEVENT'', Some ''1'', Some ex_rid2)"
  let ?d = "ex_event [ex_att ex_attendee ''NEEDS-ACTION'', ex_prop ''RECURRENCE-ID'' ex_rid1]"
  have k2: "?k2 \<in> set (only_in_second ex_env ex_docA_instance ex_docB_instances)"
    by (simp add: ex_only)
  have n: "deriveInstance ex_env ex_docA_instance (snd (snd ?k2)) = None"
    by (simp add: ex_derived)
  have none: "compareComponents ex_env ex_attendee ex_docA_instance ex_docB_instances
      = Inr (False, False)"
    by (rule mp [OF conjunct1 [OF derived_instances [OF k2]] n])
  have k1: "?k1 \<in> set (only_in_second ex_env ex_docB_same ex_docB_override)"
    by (simp add: ex_only)
  have s: "deriveInstance ex_env ex_docB_same (snd (snd ?k1)) = Some ?d"
    by (simp add: ex_derived)
  from mp [OF spec [OF conjunct1 [OF conjunct2 [OF derived_instances [OF k1]]]] s,
      of ex_attendee]
  obtain c2 where "map_of (mapComponents ex_env ex_docB_override) ?k1 = Some c2"
    by (elim exE conjE)
  then have lookup: "map_of (mapComponents ex_env ex_docB_override) ?k1
      = Some (ex_event [ex_att ex_attendee ''ACCEPTED'', ex_prop ''RECURRENCE-ID'' ex_rid1])"
    by (simp add: ex_maps ex_rid1_def)
  have changed: "compareComponents ex_env ex_attendee ex_docB_same ex_docB_override
      = Inr (True, False)"
    unfolding conjunct2 [OF conjunct2 [OF conjunct2 [OF derived_instances [OF k1]]]]
    by (simp add: ex_keys ex_maps ex_maps_same ex_only matched_ok_def matched_flag_def
        derived_ok_def derived_flag_def ex_derived ex_matched_pair ex_derived_pair)
  have k3: "?k1 \<in> set (only_in_second ex_env ex_docB_same ex_docB_instance)"
    by (simp add: ex_instance_only)
  have unchanged: "compareComponents ex_env ex_attendee ex_docB_same ex_docB_instance
      = Inr (True, True)"
    unfolding conjunct2 [OF conjunct2 [OF conjunct2 [OF derived_instances [OF k3]]]]
    by (simp add: ex_keys ex_instance_only ex_instance_map ex_maps_same matched_ok_def
        matched_flag_def derived_ok_def derived_flag_def ex_derived ex_matched_pair
        ex_unchanged_instance)
  from none lookup changed unchanged show ?thesis
    by (intro conjI)
qed

text \<open>
  C5. \<open>organizerDiff\<close> duplicates both documents, removes the alarms from each
  duplicate, and returns whether the two duplicates are then structurally equal: the
  store gains the two alarm-free duplicates, to which the fields of the \<open>iCalDiff\<close>
  object now point. In particular, for two documents that are the same but for one
  \<open>VALARM\<close> inside one of the first document's components, the result is true.
\<close>

theorem organizer_diff_ignores_alarms:
  assumes "calendar1 self < length h" and "calendar2 self < length h"
  shows "organizerDiff (self, h) =
           (comp_eq (removeAlarms (h ! calendar1 self)) (removeAlarms (h ! calendar2 self)),
            self\<lparr>calendar1 := length h, calendar2 := Suc (length h)\<rparr>,
            h @ [removeAlarms (h ! calendar1 self), removeAlarms (h ! calendar2 self)])
       \<and> (\<forall>alarm n ps pre post en eps s1 s2.
             cname alarm = ''VALARM''
             \<and> h ! calendar1 self =
                 Component n ps (pre @ Component en eps (s1 @ alarm # s2) # post)
             \<and> h ! calendar2 self = Component n ps (pre @ Component en eps (s1 @ s2) # post)
             \<longrightarrow> fst (organizerDiff (self, h)) = True)"
proof (rule conjI)
  show run: "organizerDiff (self, h) =
      (comp_eq (removeAlarms (h ! calendar1 self)) (removeAlarms (h ! calendar2 self)),
       self\<lparr>calendar1 := length h, calendar2 := Suc (length h)\<rparr>,
       h @ [removeAlarms (h ! calendar1 self), removeAlarms (h ! calendar2 self)])"
    by (rule organizerDiff_run [OF assms])
  show "\<forall>alarm n ps pre post en eps s1 s2.
      cname alarm = ''VALARM''
      \<and> h ! calendar1 self = Component n ps (pre @ Component en eps (s1 @ alarm # s2) # post)
      \<and> h ! calendar2 self = Component n ps (pre @ Component en eps (s1 @ s2) # post)
      \<longrightarrow> fst (organizerDiff (self, h)) = True"
  proof (intro allI impI, elim conjE)
    fix alarm n ps pre post en eps s1 s2
    assume a: "cname alarm = ''VALARM''"
      and d1: "h ! calendar1 self =
        Component n ps (pre @ Component en eps (s1 @ alarm # s2) # post)"
      and d2: "h ! calendar2 self = Component n ps (pre @ Component en eps (s1 @ s2) # post)"
    have "removeAlarms (h ! calendar1 self) = removeAlarms (h ! calendar2 self)"
      unfolding d1 d2 by (rule removeAlarms_drops_alarm [OF a])
    then have "comp_eq (removeAlarms (h ! calendar1 self)) (removeAlarms (h ! calendar2 self))"
      by (simp only: comp_eq_refl)
    then show "fst (organizerDiff (self, h)) = True"
      unfolding run by simp
  qed
qed

theorem organizer_diff_ignores_alarms_witness:
  "fst (organizerDiff (ex_self, [ex_docB_alarm, ex_docB_same])) = True"
proof -
  let ?h = "[ex_docB_alarm, ex_docB_same]"
  let ?ps = "[ex_prop ''VERSION'' ''2.0'', ex_prop ''PRODID'' ''-//Example//EN'']"
  let ?eps = "[ex_prop ''UID'' ''1'', ex_prop ''SUMMARY'' ''Meeting'',
       ex_att ex_attendee ''NEEDS-ACTION'']"
  have a: "cname ex_alarm = ''VALARM''"
    by (simp add: ex_alarm_def)
  have d1: "?h ! calendar1 ex_self =
      Component ''VCALENDAR'' ?ps ([] @ Component ''VEVENT'' ?eps ([] @ ex_alarm # []) # [])"
    by (simp add: ex_self_def ex_docB_alarm_def ex_calendar_def)
  have d2: "?h ! calendar2 ex_self =
      Component ''VCALENDAR'' ?ps ([] @ Component ''VEVENT'' ?eps ([] @ []) # [])"
    by (simp add: ex_self_def ex_docB_same_def ex_calendar_def ex_event_def)
  from organizer_diff_ignores_alarms [OF ex_store_valid(1,2), of ex_docB_alarm ex_docB_same]
  have "\<forall>alarm n ps pre post en eps s1 s2.
      cname alarm = ''VALARM''
      \<and> ?h ! calendar1 ex_self = Component n ps (pre @ Component en eps (s1 @ alarm # s2) # post)
      \<and> ?h ! calendar2 ex_self = Component n ps (pre @ Component en eps (s1 @ s2) # post)
      \<longrightarrow> fst (organizerDiff (ex_self, ?h)) = True"
    by (rule conjunct2)
  then have "cname ex_alarm = ''VALARM''
      \<and> ?h ! calendar1 ex_self =
          Component ''VCALENDAR'' ?ps ([] @ Component ''VEVENT'' ?eps ([] @ ex_alarm # []) # [])
      \<and> ?h ! calendar2 ex_self =
          Component ''VCALENDAR'' ?ps ([] @ Component ''VEVENT'' ?eps ([] @ []) # [])
      \<longrightarrow> fst (organizerDiff (ex_self, ?h)) = True"
    by (elim allE)
  with a d1 d2 show ?thesis
    by (elim impE) (intro conjI)
qed

text \<open>
  C7. Neither operation changes the caller's two documents: all stripping, filtering
  and normalisation is done on the duplicates. After \<open>organizerDiff\<close> and after
  \<open>attendeeMerge\<close>, every object that the store held before, and so each of the two
  documents, has the content it had.
\<close>

theorem originals_unchanged:
  assumes "calendar1 self < length h" and "calendar2 self < length h"
  shows "take (length h) (snd (snd (organizerDiff (self, h)))) = h
       \<and> snd (snd (organizerDiff (self, h))) ! calendar1 self = h ! calendar1 self
       \<and> snd (snd (organizerDiff (self, h))) ! calendar2 self = h ! calendar2 self
       \<and> take (length h) (snd (snd (attendeeMerge env att (self, h)))) = h
       \<and> snd (snd (attendeeMerge env att (self, h))) ! calendar1 self = h ! calendar1 self
       \<and> snd (snd (attendeeMerge env att (self, h))) ! calendar2 self = h ! calendar2 self"
  using assms
  by (simp add: organizerDiff_run [OF assms] attendeeMerge_run [OF assms] Let_def nth_append)

theorem originals_unchanged_witness:
  "snd (snd (organizerDiff (ex_self, [ex_docB_alarm, ex_docB_same]))) ! 0 = ex_docB_alarm
   \<and> snd (snd (organizerDiff (ex_self, [ex_docB_alarm, ex_docB_same]))) ! 1 = ex_docB_same
   \<and> snd (snd (attendeeMerge ex_env ex_attendee (ex_self, [ex_docB_alarm, ex_docB_same]))) ! 0
       = ex_docB_alarm
   \<and> snd (snd (attendeeMerge ex_env ex_attendee (ex_self, [ex_docB_alarm, ex_docB_same]))) ! 1
       = ex_docB_same
   \<and> snd (snd (attendeeMerge ex_env ex_attendee (ex_self, [ex_docA, ex_docB_same]))) ! 0
       = ex_docA
   \<and> snd (snd (attendeeMerge ex_env ex_attendee (ex_self, [ex_docA, ex_docB_same]))) ! 2
       = ex_docB_same"
proof -
  have first: "snd (snd (organizerDiff (ex_self, [ex_docB_alarm, ex_docB_same]))) ! 0
        = ex_docB_alarm
      \<and> snd (snd (organizerDiff (ex_self, [ex_docB_alarm, ex_docB_same]))) ! 1 = ex_docB_same
      \<and> snd (snd (attendeeMerge ex_env ex_attendee (ex_self, [ex_docB_alarm, ex_docB_same])))
          ! 0 = ex_docB_alarm
      \<and> snd (snd (attendeeMerge ex_env ex_attendee (ex_self, [ex_docB_alarm, ex_docB_same])))
          ! 1 = ex_docB_same"
    using originals_unchanged [OF ex_store_valid(1,2), of ex_docB_alarm ex_docB_same ex_env
        ex_attendee]
    by (simp add: ex_self_def)
  have kept: "snd (snd (attendeeMerge ex_env ex_attendee (ex_self, [ex_docA, ex_docB_same])))
      ! 0 = ex_docA"
    using originals_unchanged [OF ex_store_valid(1,2), of ex_docA ex_docB_same ex_env
        ex_attendee]
    by (simp add: ex_self_def)
  have copy: "snd (snd (attendeeMerge ex_env ex_attendee (ex_self, [ex_docA, ex_docB_same])))
      ! 2 = ex_docB_same"
    by (simp add: attendeeMerge_run [OF ex_store_valid(1,2)] ex_store_valid
        ex_organizer_copy Let_def)
  from first kept copy show ?thesis
    by (elim conjE) (intro conjI)
qed

text \<open>
  C2, as the claim states it, fails. The organizer's document and an unchanged copy of
  the attendee give working copies that are equal, and \<open>attendeeMerge\<close> returns
  (true, true): the second boolean is true although nothing changed. With a copy in
  which only the attendee's own \<open>ATTENDEE\<close> property differs (the other differences
  of the two events are none), it returns (true, false): the second boolean is false
  although the own property is the only thing that changed.
\<close>

theorem second_boolean_counterexample:
  "comp_eq (organizer_copy ex_env ex_attendee ex_docA) (attendee_copy ex_env ex_docB_same)
   \<and> fst (attendeeMerge ex_env ex_attendee (ex_self, [ex_docA, ex_docB_same]))
       = Inr (True, True)
   \<and> nonvolatile_diff (ex_event [ex_att ex_attendee ''NEEDS-ACTION''])
        (ex_event [ex_att ex_attendee ''ACCEPTED''])
       = [ex_att ex_attendee ''NEEDS-ACTION'', ex_att ex_attendee ''ACCEPTED'']
   \<and> fst (attendeeMerge ex_env ex_attendee (ex_self, [ex_docA, ex_docB_accepted]))
       = Inr (True, False)"
proof (intro conjI)
  show "comp_eq (organizer_copy ex_env ex_attendee ex_docA) (attendee_copy ex_env ex_docB_same)"
    by (simp only: ex_organizer_copy ex_attendee_copy ex_same_equal)
  show "fst (attendeeMerge ex_env ex_attendee (ex_self, [ex_docA, ex_docB_same]))
      = Inr (True, True)"
    by (simp add: attendeeMerge_run [OF ex_store_valid(1,2)] ex_store_valid
        ex_organizer_copy ex_attendee_copy ex_same_equal)
  show "nonvolatile_diff (ex_event [ex_att ex_attendee ''NEEDS-ACTION''])
        (ex_event [ex_att ex_attendee ''ACCEPTED''])
       = [ex_att ex_attendee ''NEEDS-ACTION'', ex_att ex_attendee ''ACCEPTED'']"
    by (simp add: nonvolatile_diff_def symdiff_def volatile_def ex_event_def ex_att_def
        ex_prop_def)
  show "fst (attendeeMerge ex_env ex_attendee (ex_self, [ex_docA, ex_docB_accepted]))
      = Inr (True, False)"
    by (simp add: attendeeMerge_run [OF ex_store_valid(1,2)] ex_store_valid
        ex_organizer_copy ex_attendee_copy ex_accepted_differs ex_checks_accepted
        ex_compare_accepted)
qed

text \<open>
  C2, amended. The second boolean returned by \<open>attendeeMerge\<close> is true exactly when
  the attendee changed nothing: the two working copies are equal, or they pass the
  checks of the \<open>VCALENDAR\<close> properties and of the timezones, every key of the first
  copy is a key of the second, and every pair of components that the matcher compares
  (the two components of a shared key, or the instance derived from the first copy and
  the second copy's component for a key of the second copy only) differs in volatile
  properties at most. So it is false when the attendee's own \<open>ATTENDEE\<close> property
  changed.
\<close>

theorem second_boolean_meaning:
  assumes "calendar1 self < length h" and "calendar2 self < length h"
    and "c1 = organizer_copy env att (h ! calendar1 self)"
    and "c2 = attendee_copy env (h ! calendar2 self)"
  shows "(\<exists>ok. fst (attendeeMerge env att (self, h)) = Inr (ok, True)) \<longleftrightarrow>
     (comp_eq c1 c2 \<or>
      (checkVCALENDARProperties c1 c2 \<and> compareVTIMEZONEs env c1 c2
       \<and> set (keys_of env c1) \<subseteq> set (keys_of env c2)
       \<and> (\<forall>kv \<in> set (mapComponents env c1).
             \<exists>comp2. map_of (mapComponents env c2) (fst kv) = Some comp2
                \<and> unchanged_pair (snd kv) comp2)
       \<and> (\<forall>k \<in> set (only_in_second env c1 c2).
             \<exists>d comp2. deriveInstance env c1 (snd (snd k)) = Some d
                \<and> map_of (mapComponents env c2) k = Some comp2 \<and> unchanged_pair d comp2)))"
proof -
  define U where "U = (\<exists>ok. compareComponents env att c1 c2 = Inr (ok, True))"
  have run: "fst (attendeeMerge env att (self, h)) =
      (if comp_eq c1 c2 then Inr (True, True)
       else if \<not> checkVCALENDARProperties c1 c2 then Inr (False, False)
       else if \<not> compareVTIMEZONEs env c1 c2 then Inr (False, False)
       else compareComponents env att c1 c2)"
    unfolding assms(3,4) by (simp add: attendeeMerge_run [OF assms(1,2)] Let_def)
  have "(\<exists>ok. fst (attendeeMerge env att (self, h)) = Inr (ok, True)) \<longleftrightarrow>
      (comp_eq c1 c2 \<or>
       (checkVCALENDARProperties c1 c2 \<and> compareVTIMEZONEs env c1 c2 \<and> U))"
    unfolding run U_def
    by (cases "comp_eq c1 c2"; cases "checkVCALENDARProperties c1 c2";
        cases "compareVTIMEZONEs env c1 c2") auto
  then show ?thesis
    unfolding U_def compareComponents_second_True .
qed

theorem second_boolean_meaning_witness:
  "fst (attendeeMerge ex_env ex_attendee (ex_self, [ex_docA, ex_docB_same])) = Inr (True, True)"
proof -
  let ?h = "[ex_docA, ex_docB_same]"
  have c1: "ex_docB_same = organizer_copy ex_env ex_attendee (?h ! calendar1 ex_self)"
    by (simp add: ex_store_valid ex_organizer_copy)
  have c2: "ex_docB_same = attendee_copy ex_env (?h ! calendar2 ex_self)"
    by (simp add: ex_store_valid ex_attendee_copy)
  have "\<exists>ok. fst (attendeeMerge ex_env ex_attendee (ex_self, ?h)) = Inr (ok, True)"
    by (rule iffD2 [OF second_boolean_meaning [OF ex_store_valid(1,2) c1 c2]])
      (rule disjI1 [OF ex_same_equal])
  then obtain ok where ok: "fst (attendeeMerge ex_env ex_attendee (ex_self, ?h)) = Inr (ok, True)" ..
  moreover have "fst (attendeeMerge ex_env ex_attendee (ex_self, ?h)) \<noteq> Inr (False, True)"
    by (simp add: attendeeMerge_def duplicate_def Let_def compareComponents_char)
  ultimately show ?thesis
    by (cases ok) simp_all
qed

end
